theory Spec2Isabelle
  imports Complex_Main
begin

section \<open>Hollow Creek: animatronic AI and night progression (game.js)\<close>

text \<open>
  The model follows \<^verbatim>\<open>src/game.js\<close>. JavaScript numbers that hold timestamps, camera ids,
  night, hour and power are integers (\<open>int\<close>); the interval arithmetic, which multiplies by
  the decimal constants of \<open>NIGHT_SPEED\<close> and by \<open>0.45\<close>, is done in exact rationals
  (\<open>rat\<close>). \<open>Math.random()\<close> is an input \<open>u\<close> of the model, a rational with
  \<open>0 \<le> u < 1\<close>; \<open>Date.now()\<close> is an input timestamp. Drawing, audio and asset loading
  are left out. Module-level variables are the fields of the record \<open>game\<close>.

  For the base intervals and multipliers of the file the products of line 413 and line 433
  are the same numbers in doubles and in rationals. The products \<open>Math.random() * n\<close> of
  lines 218 and 416 are not: the code rounds the product to a double before \<open>Math.floor\<close>,
  which gives the next integer when the exact product \<open>x\<close> lies less than \<open>x / 2^53\<close> below
  it; the model floors the exact product. The statements about draws are written so that
  they hold for either floor: they say which list a draw comes from and which draws are met
  for certain, never which member a draw on such a boundary gives.
\<close>

subsection \<open>Anim definitions and runtime objects (lines 51-63)\<close>

datatype animName = Vale | Patch | Lulla | Rust

record animDef =
  allowed :: "int list"
  start :: int
  defInterval :: int
  activeFrom :: int

fun animDefs :: "animName \<Rightarrow> animDef" where
  "animDefs Vale = \<lparr>allowed = [1, 3, 5], start = 1, defInterval = 25000, activeFrom = 3\<rparr>"
| "animDefs Patch = \<lparr>allowed = [1, 2, 4], start = 1, defInterval = 28000, activeFrom = 2\<rparr>"
| "animDefs Lulla = \<lparr>allowed = [1, 3, 4, 5], start = 1, defInterval = 32000, activeFrom = 1\<rparr>"
| "animDefs Rust = \<lparr>allowed = [6], start = 6, defInterval = 42000, activeFrom = 5\<rparr>"

text \<open>\<open>Object.keys(animDefs)\<close> and \<open>Object.values(anims)\<close> enumerate in insertion order.\<close>

definition animKeys :: "animName list" where
  "animKeys = [Vale, Patch, Lulla, Rust]"

text \<open>\<open>cam\<close> is \<open>None\<close> when the JavaScript value is \<open>undefined\<close> (an array read out of range).\<close>

record anim =
  name :: animName
  cam :: "int option"
  lastMove :: int
  baseInterval :: int
  inOffice :: bool
  active :: bool
  lastSeen :: int

text \<open>
  A pending \<open>setTimeout\<close> callback of \<open>triggerEntry\<close>: the anim it resets and the instant
  from which it may run (the instant of the call plus the delay).
\<close>

type_synonym timer = "animName \<times> int"

record game =
  started :: bool
  inMenu :: bool
  monitorOpen :: bool
  monitorSingle :: "int option"
  night :: int
  hour :: int
  power_st :: int
  doorLeftClosed :: bool
  doorRightClosed :: bool
  anims :: "animName \<Rightarrow> anim"
  pending :: nat
  tickers :: nat
  timers :: "timer list"
  entries :: "animName list"

text \<open>
  The state after the script has loaded at instant \<open>t0\<close> (lines 24-33 and 57-63); the
  \<open>Date.now()\<close> calls of the load are taken at the one instant \<open>t0\<close>. \<open>pending\<close> counts
  the calls of \<open>beginGamePlay\<close> that wait at \<open>await preloadAll()\<close>, \<open>tickers\<close> the hour
  tickers installed by \<open>beginGamePlay\<close>; \<open>entries\<close> is the log written by
  \<open>triggerEntry\<close> (\<open>console.log('ENTRY:', name)\<close>).
\<close>

definition initGame :: "int \<Rightarrow> game" where
  "initGame t0 =
     \<lparr>started = False, inMenu = True, monitorOpen = False, monitorSingle = None,
      night = 1, hour = 0, power_st = 100,
      doorLeftClosed = False, doorRightClosed = False,
      anims = (\<lambda>k. \<lparr>name = k, cam = Some (start (animDefs k)), lastMove = t0,
                     baseInterval = defInterval (animDefs k),
                     inOffice = False, active = False, lastSeen = t0\<rparr>),
      pending = 0, tickers = 0, timers = [], entries = []\<rparr>"

subsection \<open>New game and the hour ticker (lines 192-226)\<close>

definition initAnimFlags :: "int \<Rightarrow> (animName \<Rightarrow> anim) \<Rightarrow> (animName \<Rightarrow> anim)" where
  "initAnimFlags ngt as = (\<lambda>k. (as k)\<lparr>active := (activeFrom (animDefs k) \<le> ngt)\<rparr>)"

text \<open>
  \<open>startNewGame\<close> (lines 192-196): hides the menu, sets the clock and calls
  \<open>beginGamePlay\<close>. That function is \<open>async\<close> and its first statement is
  \<open>await preloadAll()\<close>, so the call returns there and \<open>startNewGame\<close> ends with one more
  call waiting.
\<close>

definition startNewGame :: "game \<Rightarrow> game" where
  "startNewGame s =
     s\<lparr>inMenu := False, started := True, night := 1, hour := 0, power_st := 100,
       pending := Suc (pending s)\<rparr>"

text \<open>
  \<open>beginGamePlay\<close> after the \<open>await\<close> (lines 205-225), a later step of the event loop: sets
  the anim flags from the night of that moment, installs one more hour ticker and starts
  the frame loop.
\<close>

definition beginGamePlay :: "game \<Rightarrow> game" where
  "beginGamePlay s =
     s\<lparr>anims := initAnimFlags (night s) (anims s), tickers := Suc (tickers s),
       pending := pending s - 1\<rparr>"

text \<open>
  One run of the \<open>setInterval\<close> callback; \<open>r\<close> is the value of \<open>Math.random()\<close>, and the
  product \<open>r * 6\<close> is taken exactly.
\<close>

definition hourTick :: "rat \<Rightarrow> game \<Rightarrow> game" where
  "hourTick r s =
     (if \<not> started s then s
      else let h = hour s + 1;
               n' = (if h > 7 then min 7 (night s + 1) else night s);
               h' = (if h > 7 then 0 else h);
               p' = max 0 (power_st s - \<lfloor>r * 6\<rfloor>)
           in s\<lparr>night := n', hour := h', power_st := p', anims := initAnimFlags n' (anims s)\<rparr>)"

subsection \<open>Difficulty table per night (lines 397-405)\<close>

definition NIGHT_SPEED :: "int \<Rightarrow> rat option" where
  "NIGHT_SPEED n =
     (if n = 1 then Some 1.6
      else if n = 2 then Some 1.25
      else if n = 3 then Some 1.0
      else if n = 4 then Some 0.95
      else if n = 5 then Some 0.85
      else if n = 6 then Some 0.6
      else if n = 7 then Some 0.5
      else None)"

text \<open>\<open>NIGHT_SPEED[night] || 1.0\<close>: the default replaces \<open>undefined\<close> and the falsy \<open>0\<close>.\<close>

definition speedOf :: "int \<Rightarrow> rat" where
  "speedOf n = (case NIGHT_SPEED n of None \<Rightarrow> 1.0 | Some m \<Rightarrow> if m = 0 then 1.0 else m)"

definition interval :: "int \<Rightarrow> anim \<Rightarrow> rat" where
  "interval ngt a = max 700 (of_int (baseInterval a) * speedOf ngt)"

subsection \<open>AI movement and entry rules (lines 408-443)\<close>

text \<open>
  \<open>arr[Math.floor(u * arr.length)]\<close>, with the product taken exactly (see the note at the
  head); a read out of range gives \<open>undefined\<close>.
\<close>

definition pick :: "int list \<Rightarrow> rat \<Rightarrow> int option" where
  "pick arr u =
     (let i = \<lfloor>u * of_nat (length arr)\<rfloor>
      in if 0 \<le> i \<and> i < int (length arr) then Some (arr ! nat i) else None)"

text \<open>Lines 414-420: the movement step.\<close>

definition moveStep :: "int \<Rightarrow> int \<Rightarrow> rat \<Rightarrow> anim \<Rightarrow> anim" where
  "moveStep ngt now u a =
     (if of_int (now - lastMove a) > interval ngt a
      then a\<lparr>cam := pick (allowed (animDefs (name a))) u, lastMove := now, lastSeen := now\<rparr>
      else a)"

text \<open>Lines 421-424: the surveillance step.\<close>

definition surveil :: "bool \<Rightarrow> int option \<Rightarrow> int \<Rightarrow> anim \<Rightarrow> anim" where
  "surveil mo ms now a =
     (if mo then
        (if ms = None then a\<lparr>lastSeen := now\<rparr>
         else if cam a = ms then a\<lparr>lastSeen := now\<rparr>
         else a)
      else a)"

text \<open>
  Lines 425-434: the entry rules. The result is the anim and the names passed to
  \<open>triggerEntry\<close>, in call order.
\<close>

definition rustRule :: "int \<Rightarrow> anim \<times> animName list \<Rightarrow> anim \<times> animName list" where
  "rustRule now p =
     (case p of (a, es) \<Rightarrow>
        if name a = Rust then
          (if now - lastSeen a > 30000 \<and> \<not> inOffice a
           then (a\<lparr>inOffice := True\<rparr>, es @ [name a]) else (a, es))
        else (a, es))"

definition valeRule :: "bool \<Rightarrow> anim \<times> animName list \<Rightarrow> anim \<times> animName list" where
  "valeRule dr p =
     (case p of (a, es) \<Rightarrow>
        if name a = Vale \<and> cam a = Some 3 \<and> \<not> dr
        then (a\<lparr>inOffice := True\<rparr>, es @ [Vale]) else (a, es))"

definition patchRule :: "bool \<Rightarrow> anim \<times> animName list \<Rightarrow> anim \<times> animName list" where
  "patchRule dl p =
     (case p of (a, es) \<Rightarrow>
        if name a = Patch \<and> cam a = Some 6 \<and> \<not> dl
        then (a\<lparr>inOffice := True\<rparr>, es @ [Patch]) else (a, es))"

definition lullaRule :: "bool \<Rightarrow> rat \<Rightarrow> int \<Rightarrow> anim \<times> animName list \<Rightarrow> anim \<times> animName list" where
  "lullaRule dr iv now p =
     (case p of (a, es) \<Rightarrow>
        if name a = Lulla \<and> cam a = Some 3 \<and> \<not> dr then
          (if of_int (now - lastMove a) < iv * 0.45
           then (a\<lparr>inOffice := True\<rparr>, es @ [Lulla]) else (a, es))
        else (a, es))"

definition entryRules :: "game \<Rightarrow> rat \<Rightarrow> int \<Rightarrow> anim \<Rightarrow> anim \<times> animName list" where
  "entryRules s iv now a =
     lullaRule (doorRightClosed s) iv now
       (patchRule (doorLeftClosed s)
         (valeRule (doorRightClosed s)
           (rustRule now (a, []))))"

text \<open>
  The body of the \<open>forEach\<close> of \<open>updateAI\<close> for one anim. The interval is computed once
  (line 413), before the movement step.
\<close>

definition updateAnim :: "game \<Rightarrow> int \<Rightarrow> rat \<Rightarrow> anim \<Rightarrow> anim \<times> animName list" where
  "updateAnim s now u a =
     (let a1 = a\<lparr>active := (activeFrom (animDefs (name a)) \<le> night s)\<rparr>
      in if \<not> active a1 then (a1, [])
         else if inOffice a1 then (a1, [])
         else let iv = interval (night s) a1;
                  a2 = moveStep (night s) now u a1;
                  a3 = surveil (monitorOpen s) (monitorSingle s) now a2
              in entryRules s iv now a3)"

text \<open>
  \<open>triggerEntry\<close>: logs the entry and schedules the callback that ends the breach 2200 ms
  later. The instant of the call is the \<open>now\<close> of the running \<open>updateAI\<close>.
\<close>

definition triggerEntry :: "int \<Rightarrow> animName \<Rightarrow> game \<Rightarrow> game" where
  "triggerEntry now nm s =
     s\<lparr>entries := entries s @ [nm], timers := timers s @ [(nm, now + 2200)]\<rparr>"

definition updateOne :: "(animName \<Rightarrow> rat) \<Rightarrow> int \<Rightarrow> animName \<Rightarrow> game \<Rightarrow> game" where
  "updateOne rnd now k s =
     (case updateAnim s now (rnd k) (anims s k) of
        (a', es) \<Rightarrow> fold (triggerEntry now) es (s\<lparr>anims := (anims s)(k := a')\<rparr>))"

text \<open>\<open>rnd k\<close> is the value \<open>Math.random()\<close> returns if anim \<open>k\<close> relocates in this call.\<close>

definition updateAI :: "(animName \<Rightarrow> rat) \<Rightarrow> int \<Rightarrow> game \<Rightarrow> game" where
  "updateAI rnd now s = fold (updateOne rnd now) animKeys s"

text \<open>The callback of \<open>triggerEntry\<close>, run at instant \<open>t\<close> (\<open>Date.now()\<close> inside it).\<close>

definition timerFire :: "int \<Rightarrow> animName \<Rightarrow> game \<Rightarrow> game" where
  "timerFire t nm s = s\<lparr>anims := (anims s)(nm := (anims s nm)\<lparr>inOffice := False, lastMove := t\<rparr>)\<rparr>"

subsection \<open>Player input (lines 480-520)\<close>

text \<open>
  A tap, by the region of the canvas it falls in: below 80 percent of the height, on the
  thumbnail of a camera of \<open>camPositions\<close> (its id), in the left half.
\<close>

record tap =
  bottom :: bool
  thumb :: "int option"
  leftHalf :: bool

text \<open>
  With the menu open only the overlays change. The branch \<open>!started\<close> calls a function the
  file does not define; the exception leaves the state as it is.
\<close>

definition handleTap :: "tap \<Rightarrow> game \<Rightarrow> game" where
  "handleTap tp s =
     (if inMenu s then s
      else if \<not> started s then s
      else if bottom tp then
        (if \<not> monitorOpen s then s\<lparr>monitorOpen := True\<rparr>
         else s\<lparr>monitorOpen := False, monitorSingle := None\<rparr>)
      else if monitorOpen s then s\<lparr>monitorSingle := thumb tp\<rparr>
      else if leftHalf tp then s\<lparr>doorLeftClosed := \<not> doorLeftClosed s\<rparr>
      else s\<lparr>doorRightClosed := \<not> doorRightClosed s\<rparr>)"

subsection \<open>Runs of the game\<close>

text \<open>
  The states the event loop can reach: the load, a click on New Game, the rest of a waiting
  \<open>beginGamePlay\<close>, a frame of the loop, a run of the hour ticker, a breach callback that is
  due, a tap. The loop and the ticker exist once \<open>beginGamePlay\<close> has run; \<open>Math.random()\<close>
  returns a value in \<open>[0, 1)\<close>. The click listener of the menu stays installed, so New Game
  is a step of every state here; the menu is on screen only while \<open>inMenu\<close> holds.
\<close>

inductive reachable :: "game \<Rightarrow> bool" where
  r_init: "reachable (initGame t0)"
| r_new: "reachable s \<Longrightarrow> reachable (startNewGame s)"
| r_begin: "reachable s \<Longrightarrow> 0 < pending s \<Longrightarrow> reachable (beginGamePlay s)"
| r_frame: "reachable s \<Longrightarrow> 0 < tickers s \<Longrightarrow> (\<And>k. 0 \<le> rnd k \<and> rnd k < 1) \<Longrightarrow>
            reachable (updateAI rnd now s)"
| r_tick: "reachable s \<Longrightarrow> 0 < tickers s \<Longrightarrow> 0 \<le> r \<Longrightarrow> r < 1 \<Longrightarrow> reachable (hourTick r s)"
| r_timer: "reachable s \<Longrightarrow> (nm, d) \<in> set (timers s) \<Longrightarrow> d \<le> t \<Longrightarrow>
            reachable (timerFire t nm (s\<lparr>timers := remove1 (nm, d) (timers s)\<rparr>))"
| r_tap: "reachable s \<Longrightarrow> reachable (handleTap tp s)"

subsection \<open>Derived notions used in the statements\<close>

text \<open>The names passed to \<open>triggerEntry\<close> during one call of \<open>updateAI\<close>, in call order.\<close>

definition entriesOf :: "(animName \<Rightarrow> rat) \<Rightarrow> int \<Rightarrow> game \<Rightarrow> animName list" where
  "entriesOf rnd now s = concat (map (\<lambda>k. snd (updateAnim s now (rnd k) (anims s k))) animKeys)"

text \<open>
  The ranges of the night clock; a ticker or a waiting \<open>beginGamePlay\<close> exists only after
  \<open>started\<close> was set.
\<close>

definition clockInv :: "game \<Rightarrow> bool" where
  "clockInv s \<longleftrightarrow>
     0 \<le> hour s \<and> hour s \<le> 7 \<and> 1 \<le> night s \<and> night s \<le> 7 \<and>
     0 \<le> power_st s \<and> power_st s \<le> 100 \<and>
     (0 < tickers s \<longrightarrow> started s) \<and> (0 < pending s \<longrightarrow> started s)"

text \<open>Every runtime object is stored under its own name (line 60, \<open>name:k\<close>).\<close>

definition wellNamed :: "game \<Rightarrow> bool" where
  "wellNamed s \<longleftrightarrow> (\<forall>k. name (anims s k) = k)"

text \<open>Patch is at one of its allowed cameras, outside the office, and has never entered.\<close>

definition patchInv :: "game \<Rightarrow> bool" where
  "patchInv s \<longleftrightarrow>
     cam (anims s Patch) \<in> Some ` set (allowed (animDefs Patch)) \<and>
     \<not> inOffice (anims s Patch) \<and>
     Patch \<notin> set (entries s) \<and> Patch \<notin> fst ` set (timers s)"

section \<open>Properties\<close>

subsection \<open>One call of \<open>updateAI\<close> as a single update\<close>

lemma fold_triggerEntry:
  "fold (triggerEntry now) es s =
     s\<lparr>timers := timers s @ map (\<lambda>n. (n, now + 2200)) es, entries := entries s @ es\<rparr>"
  by (induction es arbitrary: s) (simp_all add: triggerEntry_def)

lemma updateOne_eq:
  "updateOne rnd now k s =
     s\<lparr>anims := (anims s)(k := fst (updateAnim s now (rnd k) (anims s k))),
       timers := timers s @ map (\<lambda>n. (n, now + 2200)) (snd (updateAnim s now (rnd k) (anims s k))),
       entries := entries s @ snd (updateAnim s now (rnd k) (anims s k))\<rparr>"
  by (simp add: updateOne_def fold_triggerEntry split: prod.split)

lemma updateAnim_frame [simp]:
  "updateAnim (s\<lparr>anims := x\<rparr>) = updateAnim s"
  "updateAnim (s\<lparr>timers := y\<rparr>) = updateAnim s"
  "updateAnim (s\<lparr>entries := z\<rparr>) = updateAnim s"
  by (simp_all add: updateAnim_def entryRules_def fun_eq_iff Let_def)

lemma updateAI_eq:
  "updateAI rnd now s =
     s\<lparr>anims := (\<lambda>k. fst (updateAnim s now (rnd k) (anims s k))),
       timers := timers s @ map (\<lambda>n. (n, now + 2200)) (entriesOf rnd now s),
       entries := entries s @ entriesOf rnd now s\<rparr>"
proof -
  have A: "(anims s)(Vale := f Vale, Patch := f Patch, Lulla := f Lulla, Rust := f Rust) = f" for f
  proof
    fix k show "((anims s)(Vale := f Vale, Patch := f Patch, Lulla := f Lulla, Rust := f Rust)) k = f k"
      by (cases k) simp_all
  qed
  show ?thesis
    by (simp add: updateAI_def animKeys_def updateOne_eq entriesOf_def
        A [of "\<lambda>k. fst (updateAnim s now (rnd k) (anims s k))"])
qed

lemma floor_draw6:
  assumes "0 \<le> r" "r < 1"
  shows "0 \<le> \<lfloor>r * 6\<rfloor> \<and> \<lfloor>r * 6\<rfloor> \<le> 5"
proof -
  have "r * 6 < 6" using assms by simp
  then have "\<lfloor>r * 6\<rfloor> < 6" by (simp add: floor_less_iff)
  moreover have "0 \<le> \<lfloor>r * 6\<rfloor>" using assms by simp
  ultimately show ?thesis by simp
qed

lemma clockInv_hourTick:
  assumes "clockInv s" "0 \<le> r" "r < 1"
  shows "clockInv (hourTick r s)"
proof -
  define d where "d = \<lfloor>r * 6\<rfloor>"
  have "0 \<le> d \<and> d \<le> 5" unfolding d_def using assms(2,3) by (rule floor_draw6)
  then show ?thesis
    using assms(1) by (auto simp: clockInv_def hourTick_def Let_def d_def [symmetric])
qed

lemma reachable_clockInv: "reachable s \<Longrightarrow> clockInv s"
proof (induction rule: reachable.induct)
  case (r_init t0)
  show ?case by (simp add: clockInv_def initGame_def)
next
  case (r_new s)
  show ?case by (simp add: clockInv_def startNewGame_def)
next
  case (r_begin s)
  then show ?case by (simp add: clockInv_def beginGamePlay_def)
next
  case (r_frame s rnd now)
  then show ?case by (simp add: clockInv_def updateAI_eq)
next
  case (r_tick s r)
  then show ?case by (simp add: clockInv_hourTick)
next
  case (r_timer s nm d t)
  then show ?case by (simp add: clockInv_def timerFire_def)
next
  case (r_tap s tp)
  then show ?case by (auto simp: clockInv_def handleTap_def)
qed

subsection \<open>The steps of one anim\<close>

lemma moveStep_fields [simp]:
  "name (moveStep n now u a) = name a"
  "baseInterval (moveStep n now u a) = baseInterval a"
  "inOffice (moveStep n now u a) = inOffice a"
  "active (moveStep n now u a) = active a"
  by (simp_all add: moveStep_def)

lemma surveil_fields [simp]:
  "name (surveil mo ms now a) = name a"
  "cam (surveil mo ms now a) = cam a"
  "lastMove (surveil mo ms now a) = lastMove a"
  "baseInterval (surveil mo ms now a) = baseInterval a"
  "inOffice (surveil mo ms now a) = inOffice a"
  "active (surveil mo ms now a) = active a"
  by (simp_all add: surveil_def)

lemma entryRules_Rust:
  "name a = Rust \<Longrightarrow> entryRules s iv now a =
     (if now - lastSeen a > 30000 \<and> \<not> inOffice a then (a\<lparr>inOffice := True\<rparr>, [Rust]) else (a, []))"
  by (simp add: entryRules_def rustRule_def valeRule_def patchRule_def lullaRule_def)

lemma entryRules_Vale:
  "name a = Vale \<Longrightarrow> entryRules s iv now a =
     (if cam a = Some 3 \<and> \<not> doorRightClosed s then (a\<lparr>inOffice := True\<rparr>, [Vale]) else (a, []))"
  by (simp add: entryRules_def rustRule_def valeRule_def patchRule_def lullaRule_def)

lemma entryRules_Patch:
  "name a = Patch \<Longrightarrow> entryRules s iv now a =
     (if cam a = Some 6 \<and> \<not> doorLeftClosed s then (a\<lparr>inOffice := True\<rparr>, [Patch]) else (a, []))"
  by (simp add: entryRules_def rustRule_def valeRule_def patchRule_def lullaRule_def)

lemma entryRules_Lulla:
  "name a = Lulla \<Longrightarrow> entryRules s iv now a =
     (if cam a = Some 3 \<and> \<not> doorRightClosed s \<and> of_int (now - lastMove a) < iv * 0.45
      then (a\<lparr>inOffice := True\<rparr>, [Lulla]) else (a, []))"
  by (simp add: entryRules_def rustRule_def valeRule_def patchRule_def lullaRule_def)

lemmas entryRules_name = entryRules_Rust entryRules_Vale entryRules_Patch entryRules_Lulla

lemma entryRules_fields [simp]:
  "name (fst (entryRules s iv now a)) = name a"
  "cam (fst (entryRules s iv now a)) = cam a"
  "lastMove (fst (entryRules s iv now a)) = lastMove a"
  "lastSeen (fst (entryRules s iv now a)) = lastSeen a"
  "baseInterval (fst (entryRules s iv now a)) = baseInterval a"
  "active (fst (entryRules s iv now a)) = active a"
  by (cases "name a"; simp add: entryRules_name)+

lemma interval_active [simp]: "interval n (a\<lparr>active := x\<rparr>) = interval n a"
  by (simp add: interval_def)

lemma updateAnim_idle:
  "\<not> activeFrom (animDefs (name a)) \<le> night s \<Longrightarrow> updateAnim s now u a = (a\<lparr>active := False\<rparr>, [])"
  "inOffice a \<Longrightarrow> updateAnim s now u a = (a\<lparr>active := (activeFrom (animDefs (name a)) \<le> night s)\<rparr>, [])"
  by (simp_all add: updateAnim_def Let_def)

lemma updateAnim_roaming:
  "activeFrom (animDefs (name a)) \<le> night s \<Longrightarrow> \<not> inOffice a \<Longrightarrow>
   updateAnim s now u a =
     entryRules s (interval (night s) a) now
       (surveil (monitorOpen s) (monitorSingle s) now (moveStep (night s) now u (a\<lparr>active := True\<rparr>)))"
  by (simp add: updateAnim_def Let_def)

lemma updateAnim_name [simp]: "name (fst (updateAnim s now u a)) = name a"
  by (simp add: updateAnim_def Let_def)

lemma updateAnim_baseInterval [simp]: "baseInterval (fst (updateAnim s now u a)) = baseInterval a"
  by (simp add: updateAnim_def Let_def)

lemma moveStep_active_arg:
  "cam (moveStep n now u (a\<lparr>active := x\<rparr>)) = cam (moveStep n now u a)"
  "lastMove (moveStep n now u (a\<lparr>active := x\<rparr>)) = lastMove (moveStep n now u a)"
  "lastSeen (moveStep n now u (a\<lparr>active := x\<rparr>)) = lastSeen (moveStep n now u a)"
  by (simp_all add: moveStep_def)

lemma surveil_lastSeen:
  "lastSeen (surveil mo ms now a) = (if mo \<and> (ms = None \<or> cam a = ms) then now else lastSeen a)"
  by (simp add: surveil_def)



lemma pick_mem:
  assumes "0 \<le> u" "u < 1" "arr \<noteq> []"
  shows "\<exists>c\<in>set arr. pick arr u = Some c"
proof -
  have n: "(0::rat) < of_nat (length arr)" using assms(3) by simp
  have "u * of_nat (length arr) < of_nat (length arr)" using assms(2) n by simp
  then have "u * of_nat (length arr) < of_int (int (length arr))" by simp
  then have hi: "\<lfloor>u * of_nat (length arr)\<rfloor> < int (length arr)" by (simp only: floor_less_iff)
  have lo: "0 \<le> \<lfloor>u * of_nat (length arr)\<rfloor>" using assms(1) by simp
  have "nat \<lfloor>u * of_nat (length arr)\<rfloor> < length arr" using hi lo by linarith
  then have m: "arr ! nat \<lfloor>u * of_nat (length arr)\<rfloor> \<in> set arr" by (rule nth_mem)
  have "pick arr u = Some (arr ! nat \<lfloor>u * of_nat (length arr)\<rfloor>)"
    using hi lo by (simp add: pick_def Let_def)
  with m show ?thesis by blast
qed


lemma anims_updateAI: "anims (updateAI rnd now s) k = fst (updateAnim s now (rnd k) (anims s k))"
  by (simp add: updateAI_eq)

lemma entries_updateAI:
  "entries (updateAI rnd now s) = entries s @ entriesOf rnd now s"
  "timers (updateAI rnd now s) = timers s @ map (\<lambda>n. (n, now + 2200)) (entriesOf rnd now s)"
  by (simp_all add: updateAI_eq)

lemma roaming_fields:
  assumes "activeFrom (animDefs (name a)) \<le> night s" and "\<not> inOffice a"
  shows "cam (fst (updateAnim s now u a)) = cam (moveStep (night s) now u a)"
    and "lastMove (fst (updateAnim s now u a)) = lastMove (moveStep (night s) now u a)"
    and "lastSeen (fst (updateAnim s now u a)) =
           lastSeen (surveil (monitorOpen s) (monitorSingle s) now (moveStep (night s) now u a))"
  using assms by (auto simp: updateAnim_roaming moveStep_active_arg surveil_lastSeen)

lemma updateAnim_entries:
  "snd (updateAnim s now u a) =
     (if \<not> inOffice a \<and> inOffice (fst (updateAnim s now u a)) then [name a] else [])"
proof (cases "activeFrom (animDefs (name a)) \<le> night s \<and> \<not> inOffice a")
  case True
  then show ?thesis
    by (cases "name a") (simp_all add: updateAnim_roaming entryRules_name)
next
  case False
  then show ?thesis by (auto simp: updateAnim_idle)
qed

lemma entriesOf_mem:
  "e \<in> set (snd (updateAnim s now (rnd k) (anims s k))) \<Longrightarrow> e \<in> set (entriesOf rnd now s)"
  by (cases k) (simp_all add: entriesOf_def animKeys_def)

lemma entriesOf_filter:
  assumes "wellNamed s"
  shows "filter (\<lambda>e. e = k) (entriesOf rnd now s) = snd (updateAnim s now (rnd k) (anims s k))"
proof -
  have nm: "name (anims s j) = j" for j using assms by (simp add: wellNamed_def)
  show ?thesis
    by (cases k) (simp_all add: entriesOf_def animKeys_def updateAnim_entries nm)
qed

subsection \<open>Invariants of the reachable states\<close>

lemma wellNamed_updateAI: "wellNamed s \<Longrightarrow> wellNamed (updateAI rnd now s)"
  by (simp add: wellNamed_def anims_updateAI)

lemma reachable_wellNamed: "reachable s \<Longrightarrow> wellNamed s"
proof (induction rule: reachable.induct)
  case (r_init t0)
  show ?case by (simp add: wellNamed_def initGame_def)
next
  case (r_new s)
  then show ?case by (simp add: wellNamed_def startNewGame_def)
next
  case (r_begin s)
  then show ?case by (simp add: wellNamed_def beginGamePlay_def initAnimFlags_def)
next
  case (r_frame s rnd now)
  then show ?case by (simp add: wellNamed_updateAI)
next
  case (r_tick s r)
  then show ?case by (simp add: wellNamed_def hourTick_def Let_def initAnimFlags_def)
next
  case (r_timer s nm d t)
  then show ?case by (simp add: wellNamed_def timerFire_def)
next
  case (r_tap s tp)
  then show ?case by (simp add: wellNamed_def handleTap_def)
qed

lemma patch_step:
  assumes nm: "name a = Patch" and c: "cam a \<in> Some ` set (allowed (animDefs Patch))"
    and off: "\<not> inOffice a" and u: "0 \<le> u" "u < 1"
  shows "cam (fst (updateAnim s now u a)) \<in> Some ` set (allowed (animDefs Patch)) \<and>
         \<not> inOffice (fst (updateAnim s now u a))"
proof (cases "activeFrom (animDefs (name a)) \<le> night s")
  case False
  then show ?thesis using c off by (simp add: updateAnim_idle)
next
  case True
  let ?m = "moveStep (night s) now u (a\<lparr>active := True\<rparr>)"
  let ?b = "surveil (monitorOpen s) (monitorSingle s) now ?m"
  have "\<exists>x\<in>set (allowed (animDefs Patch)). pick (allowed (animDefs Patch)) u = Some x"
    using u by (intro pick_mem) simp_all
  then have cm: "cam ?m \<in> Some ` set (allowed (animDefs Patch))"
    using c nm by (auto simp: moveStep_def)
  then have "cam ?b \<noteq> Some 6" by auto
  moreover have "name ?b = Patch" using nm by simp
  ultimately have "entryRules s (interval (night s) a) now ?b = (?b, [])"
    by (simp add: entryRules_Patch)
  then have "updateAnim s now u a = (?b, [])"
    using True off by (simp add: updateAnim_roaming)
  then show ?thesis using cm off by simp
qed

lemma patchInv_updateAI:
  assumes "wellNamed s" "patchInv s" "0 \<le> rnd Patch" "rnd Patch < 1"
  shows "patchInv (updateAI rnd now s)"
proof -
  have nm: "name (anims s Patch) = Patch" using assms(1) by (simp add: wellNamed_def)
  have st: "cam (fst (updateAnim s now (rnd Patch) (anims s Patch))) \<in> Some ` set (allowed (animDefs Patch)) \<and>
         \<not> inOffice (fst (updateAnim s now (rnd Patch) (anims s Patch)))"
    using nm assms(2-4) by (intro patch_step) (simp_all add: patchInv_def)
  have "filter (\<lambda>e. e = Patch) (entriesOf rnd now s) = []"
    using st by (simp only: entriesOf_filter [OF assms(1)] updateAnim_entries) simp
  then have none: "Patch \<notin> set (entriesOf rnd now s)"
    by (auto simp: filter_empty_conv)
  have "Patch \<notin> set (entries (updateAI rnd now s))"
    using none assms(2) by (simp add: entries_updateAI patchInv_def)
  moreover have "Patch \<notin> fst ` set (timers (updateAI rnd now s))"
    using none assms(2) by (auto simp: entries_updateAI patchInv_def)
  ultimately show ?thesis using st by (simp add: patchInv_def anims_updateAI)
qed

lemma reachable_patchInv: "reachable s \<Longrightarrow> patchInv s"
proof (induction rule: reachable.induct)
  case (r_init t0)
  show ?case by (simp add: patchInv_def initGame_def)
next
  case (r_new s)
  then show ?case by (simp add: patchInv_def startNewGame_def)
next
  case (r_begin s)
  then show ?case by (simp add: patchInv_def beginGamePlay_def initAnimFlags_def)
next
  case (r_frame s rnd now)
  then show ?case by (simp add: patchInv_updateAI reachable_wellNamed)
next
  case (r_tick s r)
  then show ?case by (simp add: patchInv_def hourTick_def Let_def initAnimFlags_def)
next
  case (r_timer s nm d t)
  have "set (remove1 (nm, d) (timers s)) \<subseteq> set (timers s)" by (rule set_remove1_subset)
  then have "Patch \<notin> fst ` set (remove1 (nm, d) (timers s))"
    using r_timer.IH by (auto simp: patchInv_def)
  then show ?case using r_timer.IH by (simp add: patchInv_def timerFire_def)
next
  case (r_tap s tp)
  then show ?case by (simp add: patchInv_def handleTap_def)
qed

subsection \<open>A breached anim during a frame\<close>

lemma filter_timers_of:
  "filter (\<lambda>tm. fst tm = k) (map (\<lambda>n. (n, d)) es) = map (\<lambda>n. (n, d)) (filter (\<lambda>e. e = k) es)"
  by (induction es) simp_all

lemma breached_frame:
  assumes w: "wellNamed s" and b: "inOffice (anims s k)"
  shows "cam (anims (updateAI rnd now s) k) = cam (anims s k) \<and>
         lastMove (anims (updateAI rnd now s) k) = lastMove (anims s k) \<and>
         lastSeen (anims (updateAI rnd now s) k) = lastSeen (anims s k) \<and>
         inOffice (anims (updateAI rnd now s) k) \<and>
         filter (\<lambda>e. e = k) (entries (updateAI rnd now s)) = filter (\<lambda>e. e = k) (entries s) \<and>
         filter (\<lambda>tm. fst tm = k) (timers (updateAI rnd now s)) = filter (\<lambda>tm. fst tm = k) (timers s)"
proof -
  have u: "updateAnim s now (rnd k) (anims s k) =
             ((anims s k)\<lparr>active := (activeFrom (animDefs (name (anims s k))) \<le> night s)\<rparr>, [])"
    using b by (rule updateAnim_idle(2))
  have "filter (\<lambda>e. e = k) (entriesOf rnd now s) = []"
    by (simp add: entriesOf_filter [OF w] u)
  then show ?thesis
    using b by (simp add: anims_updateAI entries_updateAI filter_timers_of u)
qed

lemma breach_raised:
  assumes w: "wellNamed s" and b: "\<not> inOffice (anims s k)" "inOffice (anims (updateAI rnd now s) k)"
  shows "filter (\<lambda>e. e = k) (entries (updateAI rnd now s)) = filter (\<lambda>e. e = k) (entries s) @ [k] \<and>
         filter (\<lambda>tm. fst tm = k) (timers (updateAI rnd now s)) =
           filter (\<lambda>tm. fst tm = k) (timers s) @ [(k, now + 2200)]"
proof -
  have nm: "name (anims s k) = k" using w by (simp add: wellNamed_def)
  have "snd (updateAnim s now (rnd k) (anims s k)) = [k]"
    using b nm by (simp add: updateAnim_entries anims_updateAI)
  then have "filter (\<lambda>e. e = k) (entriesOf rnd now s) = [k]"
    by (simp add: entriesOf_filter [OF w])
  then show ?thesis
    by (simp add: entries_updateAI filter_timers_of)
qed

lemma reachable_play: "reachable (beginGamePlay (startNewGame (initGame 0)))"
proof -
  have "reachable (startNewGame (initGame 0))" by (rule r_new) (rule r_init)
  moreover have "0 < pending (startNewGame (initGame 0))" by (simp add: startNewGame_def)
  ultimately show ?thesis by (rule r_begin)
qed


subsection \<open>The night clock\<close>

text \<open>
  C7. In every reachable state \<open>hour\<close> is in 0..7, \<open>night\<close> in 1..7 and \<open>power\<close> in
  0..100. Once a ticker exists, a tick adds 1 to \<open>hour\<close>; when that exceeds 7, \<open>night\<close>
  becomes \<open>min 7 (night + 1)\<close> and \<open>hour\<close> 0; \<open>power\<close> becomes \<open>max 0 (power - d)\<close> for
  some \<open>d\<close> in 0..5. A tick never lowers \<open>night\<close>, raises it by at most 1, and never raises
  \<open>power\<close>; a frame, a breach callback and a tap leave the clock as it is.
\<close>

theorem C7_night_clock:
  assumes "reachable s" "0 \<le> r" "r < 1"
  shows "0 \<le> hour s \<and> hour s \<le> 7 \<and> 1 \<le> night s \<and> night s \<le> 7 \<and>
         0 \<le> power_st s \<and> power_st s \<le> 100 \<and>
         (0 < tickers s \<longrightarrow>
            hour (hourTick r s) = (if hour s + 1 > 7 then 0 else hour s + 1) \<and>
            night (hourTick r s) = (if hour s + 1 > 7 then min 7 (night s + 1) else night s) \<and>
            (\<exists>d. 0 \<le> d \<and> d \<le> 5 \<and> power_st (hourTick r s) = max 0 (power_st s - d))) \<and>
         night s \<le> night (hourTick r s) \<and> night (hourTick r s) \<le> night s + 1 \<and>
         power_st (hourTick r s) \<le> power_st s \<and>
         night (updateAI rnd now s) = night s \<and> hour (updateAI rnd now s) = hour s \<and>
         power_st (updateAI rnd now s) = power_st s \<and>
         night (timerFire t nm s) = night s \<and> hour (timerFire t nm s) = hour s \<and>
         power_st (timerFire t nm s) = power_st s \<and>
         night (handleTap tp s) = night s \<and> hour (handleTap tp s) = hour s \<and>
         power_st (handleTap tp s) = power_st s"
proof -
  have inv: "clockInv s" using assms(1) by (rule reachable_clockInv)
  have fl: "0 \<le> \<lfloor>r * 6\<rfloor> \<and> \<lfloor>r * 6\<rfloor> \<le> 5" using assms(2,3) by (rule floor_draw6)
  have bounds: "0 \<le> hour s \<and> hour s \<le> 7 \<and> 1 \<le> night s \<and> night s \<le> 7 \<and>
         0 \<le> power_st s \<and> power_st s \<le> 100"
    using inv by (simp add: clockInv_def)
  have tick: "0 < tickers s \<longrightarrow>
            hour (hourTick r s) = (if hour s + 1 > 7 then 0 else hour s + 1) \<and>
            night (hourTick r s) = (if hour s + 1 > 7 then min 7 (night s + 1) else night s) \<and>
            (\<exists>d. 0 \<le> d \<and> d \<le> 5 \<and> power_st (hourTick r s) = max 0 (power_st s - d))"
  proof
    assume "0 < tickers s"
    then have st: "started s" using inv by (simp add: clockInv_def)
    have "power_st (hourTick r s) = max 0 (power_st s - \<lfloor>r * 6\<rfloor>)"
      using st by (simp add: hourTick_def Let_def)
    then have "\<exists>d. 0 \<le> d \<and> d \<le> 5 \<and> power_st (hourTick r s) = max 0 (power_st s - d)"
      using fl by blast
    then show "hour (hourTick r s) = (if hour s + 1 > 7 then 0 else hour s + 1) \<and>
            night (hourTick r s) = (if hour s + 1 > 7 then min 7 (night s + 1) else night s) \<and>
            (\<exists>d. 0 \<le> d \<and> d \<le> 5 \<and> power_st (hourTick r s) = max 0 (power_st s - d))"
      using st by (simp add: hourTick_def Let_def)
  qed
  define d where "d = \<lfloor>r * 6\<rfloor>"
  have "0 \<le> d" using fl by (simp add: d_def)
  then have mono: "night s \<le> night (hourTick r s) \<and> night (hourTick r s) \<le> night s + 1 \<and>
         power_st (hourTick r s) \<le> power_st s"
    using bounds by (auto simp: hourTick_def Let_def d_def [symmetric])
  have other: "night (updateAI rnd now s) = night s \<and> hour (updateAI rnd now s) = hour s \<and>
         power_st (updateAI rnd now s) = power_st s \<and>
         night (timerFire t nm s) = night s \<and> hour (timerFire t nm s) = hour s \<and>
         power_st (timerFire t nm s) = power_st s \<and>
         night (handleTap tp s) = night s \<and> hour (handleTap tp s) = hour s \<and>
         power_st (handleTap tp s) = power_st s"
    by (simp add: updateAI_eq timerFire_def handleTap_def)
  from bounds tick mono other show ?thesis by blast
qed

theorem C7_night_clock_witness:
  "reachable (beginGamePlay (startNewGame (initGame 0))) \<and> (0::rat) \<le> 1/2 \<and> (1/2::rat) < 1 \<and>
   0 < tickers (beginGamePlay (startNewGame (initGame 0))) \<and>
   hour (hourTick (1/2) (beginGamePlay (startNewGame (initGame 0)))) = 1 \<and>
   night (hourTick (1/2) (beginGamePlay (startNewGame (initGame 0)))) = 1 \<and>
   power_st (hourTick (1/2) (beginGamePlay (startNewGame (initGame 0)))) = 97"
proof -
  have R: "reachable (beginGamePlay (startNewGame (initGame 0)))" by (rule reachable_play)
  have a: "(0::rat) \<le> 1/2" and b: "(1/2::rat) < 1" by simp_all
  show ?thesis
    using R C7_night_clock [OF R a b]
    by (simp add: startNewGame_def beginGamePlay_def initGame_def hourTick_def Let_def)
qed

subsection \<open>The difficulty table\<close>

text \<open>
  C8. For nights 1..7 the multiplier is the value of the table, outside 1..7 it is 1.0, and
  the effective interval of an anim is \<open>max 700 (baseInterval * multiplier)\<close>, the value the
  movement step compares against.
\<close>

theorem C8_difficulty:
  "speedOf 1 = 1.6 \<and> speedOf 2 = 1.25 \<and> speedOf 3 = 1.0 \<and> speedOf 4 = 0.95 \<and>
   speedOf 5 = 0.85 \<and> speedOf 6 = 0.6 \<and> speedOf 7 = 0.5 \<and>
   (n < 1 \<or> 7 < n \<longrightarrow> speedOf n = 1.0) \<and>
   interval ngt a = max 700 (of_int (baseInterval a) * speedOf ngt) \<and>
   (moveStep ngt now u a \<noteq> a \<longrightarrow>
      of_int (now - lastMove a) > max 700 (of_int (baseInterval a) * speedOf ngt))"
  by (simp add: speedOf_def NIGHT_SPEED_def interval_def moveStep_def)

theorem C8_difficulty_witness:
  "((8::int) < 1 \<or> 7 < (8::int)) \<and> speedOf 8 = 1.0 \<and>
   moveStep 8 30000 0 (anims (initGame 0) Vale) \<noteq> anims (initGame 0) Vale \<and>
   (of_int (30000 - lastMove (anims (initGame 0) Vale)) :: rat) >
     max 700 (of_int (baseInterval (anims (initGame 0) Vale)) * speedOf 8)"
  using C8_difficulty [of 8 8 "anims (initGame 0) Vale" 30000 0]
  by (simp add: initGame_def moveStep_def interval_def speedOf_def NIGHT_SPEED_def pick_def)

subsection \<open>Movement\<close>



subsection \<open>Surveillance\<close>

text \<open>
  C4. For an anim that is active and not in the office, one call of \<open>updateAI\<close> at \<open>now\<close>:
  with the monitor open on the grid, \<open>lastSeen\<close> becomes \<open>now\<close>; with the monitor open on a
  single camera \<open>c\<close>, \<open>lastSeen\<close> becomes \<open>now\<close> if the anim is at \<open>c\<close> (or has just
  relocated) and is unchanged otherwise; with the monitor closed, \<open>lastSeen\<close> changes only
  through a relocation. The surveillance step itself refreshes always, at camera \<open>c\<close> only,
  and never, respectively.
\<close>

theorem C4_surveillance:
  fixes s k rnd now c ms b
  defines "a \<equiv> anims s k" and "a' \<equiv> anims (updateAI rnd now s) k"
  assumes "activeFrom (animDefs (name a)) \<le> night s" and "\<not> inOffice a"
  shows "(monitorOpen s \<and> monitorSingle s = None \<longrightarrow> lastSeen a' = now) \<and>
         (monitorOpen s \<and> monitorSingle s = Some c \<longrightarrow>
            lastSeen a' =
              (if cam a' = Some c \<or> of_int (now - lastMove a) > interval (night s) a
               then now else lastSeen a)) \<and>
         (\<not> monitorOpen s \<longrightarrow>
            lastSeen a' =
              (if of_int (now - lastMove a) > interval (night s) a then now else lastSeen a)) \<and>
         surveil True None now b = b\<lparr>lastSeen := now\<rparr> \<and>
         surveil True (Some c) now b = (if cam b = Some c then b\<lparr>lastSeen := now\<rparr> else b) \<and>
         surveil False ms now b = b"
proof -
  have act: "activeFrom (animDefs (name (anims s k))) \<le> night s" and off: "\<not> inOffice (anims s k)"
    using assms by simp_all
  note rf = roaming_fields [OF act off, of now "rnd k"]
  have tick: "(monitorOpen s \<and> monitorSingle s = None \<longrightarrow> lastSeen a' = now) \<and>
         (monitorOpen s \<and> monitorSingle s = Some c \<longrightarrow>
            lastSeen a' =
              (if cam a' = Some c \<or> of_int (now - lastMove a) > interval (night s) a
               then now else lastSeen a)) \<and>
         (\<not> monitorOpen s \<longrightarrow>
            lastSeen a' =
              (if of_int (now - lastMove a) > interval (night s) a then now else lastSeen a))"
    using rf by (simp add: a_def a'_def anims_updateAI surveil_lastSeen moveStep_def)
  have step: "surveil True None now b = b\<lparr>lastSeen := now\<rparr> \<and>
         surveil True (Some c) now b = (if cam b = Some c then b\<lparr>lastSeen := now\<rparr> else b) \<and>
         surveil False ms now b = b"
    by (simp add: surveil_def)
  from tick step show ?thesis by blast
qed

theorem C4_surveillance_witness:
  "activeFrom (animDefs (name (anims ((beginGamePlay (startNewGame (initGame 0)))\<lparr>monitorOpen := True\<rparr>) Lulla)))
      \<le> night ((beginGamePlay (startNewGame (initGame 0)))\<lparr>monitorOpen := True\<rparr>) \<and>
   \<not> inOffice (anims ((beginGamePlay (startNewGame (initGame 0)))\<lparr>monitorOpen := True\<rparr>) Lulla) \<and>
   monitorOpen ((beginGamePlay (startNewGame (initGame 0)))\<lparr>monitorOpen := True\<rparr>) \<and>
   monitorSingle ((beginGamePlay (startNewGame (initGame 0)))\<lparr>monitorOpen := True\<rparr>) = None \<and>
   lastSeen (anims (updateAI (\<lambda>k. 0) 500 ((beginGamePlay (startNewGame (initGame 0)))\<lparr>monitorOpen := True\<rparr>)) Lulla) = 500"
proof -
  have h1: "activeFrom (animDefs (name (anims ((beginGamePlay (startNewGame (initGame 0)))\<lparr>monitorOpen := True\<rparr>) Lulla)))
      \<le> night ((beginGamePlay (startNewGame (initGame 0)))\<lparr>monitorOpen := True\<rparr>)"
    by code_simp
  have h2: "\<not> inOffice (anims ((beginGamePlay (startNewGame (initGame 0)))\<lparr>monitorOpen := True\<rparr>) Lulla)"
    by code_simp
  have h3: "monitorOpen ((beginGamePlay (startNewGame (initGame 0)))\<lparr>monitorOpen := True\<rparr>) \<and>
     monitorSingle ((beginGamePlay (startNewGame (initGame 0)))\<lparr>monitorOpen := True\<rparr>) = None"
    by code_simp
  from C4_surveillance [OF h1 h2, where now = 500 and rnd = "\<lambda>k. 0"] h3
  have "lastSeen (anims (updateAI (\<lambda>k. 0) 500 ((beginGamePlay (startNewGame (initGame 0)))\<lparr>monitorOpen := True\<rparr>)) Lulla) = 500"
    by blast
  with h1 h2 h3 show ?thesis by blast
qed

subsection \<open>Entry rule of rust\<close>

text \<open>
  C5. Rust, active and not in the office: the entry rule reads the \<open>lastSeen\<close> left by the
  movement and surveillance steps of the same call (the rules do not change it, so it is the
  \<open>lastSeen\<close> after the call); if \<open>now - lastSeen > 30000\<close> then, rust is in the office after
  the call, and the call has logged an entry of rust and scheduled its callback. In
  particular so when \<open>lastSeen = now - 31000\<close>, the monitor is closed and rust does not
  relocate.
\<close>

theorem C5_unseen_timeout:
  fixes s rnd now
  defines "a \<equiv> anims s Rust" and "s' \<equiv> updateAI rnd now s"
  assumes "name a = Rust" and "activeFrom (animDefs Rust) \<le> night s" and "\<not> inOffice a"
  shows "lastSeen (anims s' Rust) =
           lastSeen (surveil (monitorOpen s) (monitorSingle s) now (moveStep (night s) now (rnd Rust) a)) \<and>
         (now - lastSeen (anims s' Rust) > 30000 \<longrightarrow>
            inOffice (anims s' Rust) \<and>
            (\<exists>es. entries s' = entries s @ es \<and>
                   timers s' = timers s @ map (\<lambda>n. (n, now + 2200)) es \<and> Rust \<in> set es)) \<and>
         (lastSeen a = now - 31000 \<and> \<not> monitorOpen s \<and>
          \<not> of_int (now - lastMove a) > interval (night s) a \<longrightarrow>
            inOffice (anims s' Rust) \<and>
            (\<exists>es. entries s' = entries s @ es \<and>
                   timers s' = timers s @ map (\<lambda>n. (n, now + 2200)) es \<and> Rust \<in> set es))"
proof -
  have nm: "name (anims s Rust) = Rust" and off: "\<not> inOffice (anims s Rust)"
    and act: "activeFrom (animDefs (name (anims s Rust))) \<le> night s"
    using assms by simp_all
  note rf = roaming_fields [OF act off, of now "rnd Rust"]
  have seen: "lastSeen (anims s' Rust) =
           lastSeen (surveil (monitorOpen s) (monitorSingle s) now (moveStep (night s) now (rnd Rust) a))"
    using rf by (simp add: a_def s'_def anims_updateAI)
  have raise: "inOffice (anims s' Rust) \<and> Rust \<in> set (snd (updateAnim s now (rnd Rust) (anims s Rust)))"
    if "now - lastSeen (anims s' Rust) > 30000"
  proof -
    let ?b = "surveil (monitorOpen s) (monitorSingle s) now
                (moveStep (night s) now (rnd Rust) ((anims s Rust)\<lparr>active := True\<rparr>))"
    have b: "name ?b = Rust" "\<not> inOffice ?b" using nm off by simp_all
    have "lastSeen ?b = lastSeen (anims s' Rust)"
      using rf(3) by (auto simp: s'_def anims_updateAI surveil_lastSeen moveStep_active_arg)
    then have "now - lastSeen ?b > 30000" using that by simp
    then have "updateAnim s now (rnd Rust) (anims s Rust) = (?b\<lparr>inOffice := True\<rparr>, [Rust])"
      using b by (simp add: updateAnim_roaming [OF act off] entryRules_Rust)
    then show ?thesis by (simp add: s'_def anims_updateAI)
  qed
  have ev: "\<exists>es. entries s' = entries s @ es \<and>
                   timers s' = timers s @ map (\<lambda>n. (n, now + 2200)) es \<and> Rust \<in> set es"
    if "Rust \<in> set (snd (updateAnim s now (rnd Rust) (anims s Rust)))"
    using that entriesOf_mem [of Rust s now rnd Rust] by (simp add: s'_def entries_updateAI)
  have general: "now - lastSeen (anims s' Rust) > 30000 \<longrightarrow>
            inOffice (anims s' Rust) \<and>
            (\<exists>es. entries s' = entries s @ es \<and>
                   timers s' = timers s @ map (\<lambda>n. (n, now + 2200)) es \<and> Rust \<in> set es)"
    using raise ev by blast
  have "now - lastSeen (anims s' Rust) > 30000"
    if "lastSeen a = now - 31000" "\<not> monitorOpen s"
       "\<not> of_int (now - lastMove a) > interval (night s) a"
    using that seen by (simp add: surveil_lastSeen moveStep_def a_def)
  with general have scenario: "lastSeen a = now - 31000 \<and> \<not> monitorOpen s \<and>
          \<not> of_int (now - lastMove a) > interval (night s) a \<longrightarrow>
            inOffice (anims s' Rust) \<and>
            (\<exists>es. entries s' = entries s @ es \<and>
                   timers s' = timers s @ map (\<lambda>n. (n, now + 2200)) es \<and> Rust \<in> set es)"
    by blast
  from seen general scenario show ?thesis by blast
qed

theorem C5_unseen_timeout_witness:
  "name (anims ((beginGamePlay (startNewGame (initGame 0)))\<lparr>night := 5\<rparr>) Rust) = Rust \<and>
   activeFrom (animDefs Rust) \<le> night ((beginGamePlay (startNewGame (initGame 0)))\<lparr>night := 5\<rparr>) \<and>
   \<not> inOffice (anims ((beginGamePlay (startNewGame (initGame 0)))\<lparr>night := 5\<rparr>) Rust) \<and>
   lastSeen (anims ((beginGamePlay (startNewGame (initGame 0)))\<lparr>night := 5\<rparr>) Rust) = 31000 - 31000 \<and>
   \<not> monitorOpen ((beginGamePlay (startNewGame (initGame 0)))\<lparr>night := 5\<rparr>) \<and>
   \<not> of_int (31000 - lastMove (anims ((beginGamePlay (startNewGame (initGame 0)))\<lparr>night := 5\<rparr>) Rust))
       > interval (night ((beginGamePlay (startNewGame (initGame 0)))\<lparr>night := 5\<rparr>))
           (anims ((beginGamePlay (startNewGame (initGame 0)))\<lparr>night := 5\<rparr>) Rust) \<and>
   inOffice (anims (updateAI (\<lambda>k. 0) 31000 ((beginGamePlay (startNewGame (initGame 0)))\<lparr>night := 5\<rparr>)) Rust)"
proof -
  have h1: "name (anims ((beginGamePlay (startNewGame (initGame 0)))\<lparr>night := 5\<rparr>) Rust) = Rust"
    by code_simp
  have h2: "activeFrom (animDefs Rust) \<le> night ((beginGamePlay (startNewGame (initGame 0)))\<lparr>night := 5\<rparr>)"
    by code_simp
  have h3: "\<not> inOffice (anims ((beginGamePlay (startNewGame (initGame 0)))\<lparr>night := 5\<rparr>) Rust)"
    by code_simp
  have h4: "lastSeen (anims ((beginGamePlay (startNewGame (initGame 0)))\<lparr>night := 5\<rparr>) Rust) = 31000 - 31000 \<and>
   \<not> monitorOpen ((beginGamePlay (startNewGame (initGame 0)))\<lparr>night := 5\<rparr>) \<and>
   \<not> of_int (31000 - lastMove (anims ((beginGamePlay (startNewGame (initGame 0)))\<lparr>night := 5\<rparr>) Rust))
       > interval (night ((beginGamePlay (startNewGame (initGame 0)))\<lparr>night := 5\<rparr>))
           (anims ((beginGamePlay (startNewGame (initGame 0)))\<lparr>night := 5\<rparr>) Rust)"
    by code_simp
  from C5_unseen_timeout [OF h1 h2 h3, where now = 31000 and rnd = "\<lambda>k. 0"] h4
  have "inOffice (anims (updateAI (\<lambda>k. 0) 31000 ((beginGamePlay (startNewGame (initGame 0)))\<lparr>night := 5\<rparr>)) Rust)"
    by blast
  with h1 h2 h3 h4 show ?thesis by blast
qed

subsection \<open>Entry rule of lulla\<close>

text \<open>
  C9. Lulla, not in the office before the call: after one call of \<open>updateAI\<close> at \<open>now\<close> she
  is in the office, and the call has logged her entry, if and only if she is active, her
  \<open>cam\<close> is 3, the right door is open and \<open>now - lastMove < interval * 0.45\<close> (\<open>cam\<close>
  and \<open>lastMove\<close> as the movement step of the call left them). At camera 3 with the door
  open but \<open>now - lastMove \<ge> interval * 0.45\<close> there is no breach.
\<close>

theorem C9_lulla_rule:
  fixes s rnd now
  defines "s' \<equiv> updateAI rnd now s"
  defines "a' \<equiv> anims s' Lulla"
  defines "raise \<equiv> activeFrom (animDefs Lulla) \<le> night s \<and> cam a' = Some 3 \<and> \<not> doorRightClosed s \<and>
                   of_int (now - lastMove a') < interval (night s) (anims s Lulla) * 0.45"
  assumes "wellNamed s" and "\<not> inOffice (anims s Lulla)"
  shows "(inOffice a' \<longleftrightarrow> raise) \<and>
         (\<exists>es. entries s' = entries s @ es \<and>
                timers s' = timers s @ map (\<lambda>n. (n, now + 2200)) es \<and>
                (Lulla \<in> set es \<longleftrightarrow> raise)) \<and>
         (cam a' = Some 3 \<and> \<not> doorRightClosed s \<and>
          of_int (now - lastMove a') \<ge> interval (night s) (anims s Lulla) * 0.45 \<longrightarrow> \<not> inOffice a')"
proof -
  have nm: "name (anims s Lulla) = Lulla" using assms by (simp add: wellNamed_def)
  have off: "\<not> inOffice (anims s Lulla)" using assms by simp
  have main: "inOffice a' \<longleftrightarrow> raise"
  proof (cases "activeFrom (animDefs Lulla) \<le> night s")
    case False
    then show ?thesis using nm off
      by (simp add: raise_def a'_def s'_def anims_updateAI updateAnim_idle)
  next
    case True
    then have act: "activeFrom (animDefs (name (anims s Lulla))) \<le> night s" using nm by simp
    let ?b = "surveil (monitorOpen s) (monitorSingle s) now
                (moveStep (night s) now (rnd Lulla) ((anims s Lulla)\<lparr>active := True\<rparr>))"
    have b: "name ?b = Lulla" "\<not> inOffice ?b" using nm off by simp_all
    have eq: "a' = fst (entryRules s (interval (night s) (anims s Lulla)) now ?b)"
      by (simp add: a'_def s'_def anims_updateAI updateAnim_roaming [OF act off])
    have "cam a' = cam ?b" "lastMove a' = lastMove ?b" by (simp_all add: eq)
    then show ?thesis using True b
      by (simp add: raise_def eq entryRules_Lulla)
  qed
  have "Lulla \<in> set (entriesOf rnd now s) \<longleftrightarrow> raise"
  proof -
    have "Lulla \<in> set (entriesOf rnd now s) \<longleftrightarrow> Lulla \<in> set (filter (\<lambda>e. e = Lulla) (entriesOf rnd now s))"
      by simp
    also have "\<dots> \<longleftrightarrow> inOffice a'"
      using nm off
      by (simp only: entriesOf_filter [OF assms(4)] updateAnim_entries)
         (simp add: a'_def s'_def anims_updateAI)
    finally show ?thesis using main by simp
  qed
  then have ev: "\<exists>es. entries s' = entries s @ es \<and>
                timers s' = timers s @ map (\<lambda>n. (n, now + 2200)) es \<and>
                (Lulla \<in> set es \<longleftrightarrow> raise)"
    by (auto simp: s'_def entries_updateAI)
  have late: "cam a' = Some 3 \<and> \<not> doorRightClosed s \<and>
          of_int (now - lastMove a') \<ge> interval (night s) (anims s Lulla) * 0.45 \<longrightarrow> \<not> inOffice a'"
    using main by (auto simp: raise_def)
  from main ev late show ?thesis by blast
qed

theorem C9_lulla_rule_witness:
  "wellNamed (beginGamePlay (startNewGame (initGame 0))) \<and>
   \<not> inOffice (anims (beginGamePlay (startNewGame (initGame 0))) Lulla) \<and>
   activeFrom (animDefs Lulla) \<le> night (beginGamePlay (startNewGame (initGame 0))) \<and>
   cam (anims (updateAI (\<lambda>k. 3/10) 60000 (beginGamePlay (startNewGame (initGame 0)))) Lulla) = Some 3 \<and>
   \<not> doorRightClosed (beginGamePlay (startNewGame (initGame 0))) \<and>
   of_int (60000 - lastMove (anims (updateAI (\<lambda>k. 3/10) 60000 (beginGamePlay (startNewGame (initGame 0)))) Lulla))
     < interval (night (beginGamePlay (startNewGame (initGame 0)))) (anims (beginGamePlay (startNewGame (initGame 0))) Lulla) * 0.45 \<and>
   inOffice (anims (updateAI (\<lambda>k. 3/10) 60000 (beginGamePlay (startNewGame (initGame 0)))) Lulla)"
proof -
  have w: "wellNamed (beginGamePlay (startNewGame (initGame 0)))"
    by (rule reachable_wellNamed) (rule reachable_play)
  have h: "\<not> inOffice (anims (beginGamePlay (startNewGame (initGame 0))) Lulla)" by code_simp
  have r: "activeFrom (animDefs Lulla) \<le> night (beginGamePlay (startNewGame (initGame 0))) \<and>
   cam (anims (updateAI (\<lambda>k. 3/10) 60000 (beginGamePlay (startNewGame (initGame 0)))) Lulla) = Some 3 \<and>
   \<not> doorRightClosed (beginGamePlay (startNewGame (initGame 0))) \<and>
   of_int (60000 - lastMove (anims (updateAI (\<lambda>k. 3/10) 60000 (beginGamePlay (startNewGame (initGame 0)))) Lulla))
     < interval (night (beginGamePlay (startNewGame (initGame 0)))) (anims (beginGamePlay (startNewGame (initGame 0))) Lulla) * 0.45"
    by code_simp
  from C9_lulla_rule [OF w h, where now = 60000 and rnd = "\<lambda>k. 3/10"] r
  have "inOffice (anims (updateAI (\<lambda>k. 3/10) 60000 (beginGamePlay (startNewGame (initGame 0)))) Lulla)"
    by blast
  with w h r show ?thesis by blast
qed

subsection \<open>Patch\<close>

text \<open>
  C10. In every reachable state patch is at a camera of its allowed list \<open>[1, 2, 4]\<close>, so
  never at camera 6, the only place where its entry rule fires: patch is never in the
  office and no entry of patch is ever logged.
\<close>

theorem C10_patch_never_enters:
  assumes "reachable s"
  shows "cam (anims s Patch) \<in> Some ` set (allowed (animDefs Patch)) \<and>
         set (allowed (animDefs Patch)) = {1, 2, 4} \<and>
         cam (anims s Patch) \<noteq> Some 6 \<and>
         \<not> inOffice (anims s Patch) \<and> Patch \<notin> set (entries s)"
proof -
  have "patchInv s" using assms by (rule reachable_patchInv)
  then show ?thesis by (auto simp: patchInv_def)
qed

theorem C10_patch_never_enters_witness:
  "reachable (updateAI (\<lambda>k. 3/10) 60000 (hourTick (1/2) (beginGamePlay (startNewGame (initGame 0))))) \<and>
   cam (anims (updateAI (\<lambda>k. 3/10) 60000 (hourTick (1/2) (beginGamePlay (startNewGame (initGame 0))))) Patch) \<noteq> Some 6 \<and>
   \<not> inOffice (anims (updateAI (\<lambda>k. 3/10) 60000 (hourTick (1/2) (beginGamePlay (startNewGame (initGame 0))))) Patch)"
proof -
  have r1: "reachable (beginGamePlay (startNewGame (initGame 0)))" by (rule reachable_play)
  have t1: "0 < tickers (beginGamePlay (startNewGame (initGame 0)))" by code_simp
  have r2: "reachable (hourTick (1/2) (beginGamePlay (startNewGame (initGame 0))))"
    using r1 t1 by (rule r_tick) simp_all
  have t2: "0 < tickers (hourTick (1/2) (beginGamePlay (startNewGame (initGame 0))))" by code_simp
  have r3: "reachable (updateAI (\<lambda>k. 3/10) 60000 (hourTick (1/2) (beginGamePlay (startNewGame (initGame 0)))))"
    using r2 t2 by (rule r_frame) simp
  from C10_patch_never_enters [OF r3] r3 show ?thesis by blast
qed

subsection \<open>Entry rules of vale and patch\<close>

text \<open>
  C2. The rule of vale fires exactly at camera 3 with the right door open, the rule of patch
  exactly at camera 6 with the left door open; a firing rule sets \<open>inOffice\<close> and calls
  \<open>triggerEntry\<close> with the name. Camera 3 is in the allowed list of vale; camera 6 is not in
  the allowed list of patch.
\<close>

theorem C2_location_door_rules:
  "entryRules s iv now (a\<lparr>name := Vale\<rparr>) =
     (if cam a = Some 3 \<and> \<not> doorRightClosed s
      then (a\<lparr>name := Vale, inOffice := True\<rparr>, [Vale]) else (a\<lparr>name := Vale\<rparr>, [])) \<and>
   entryRules s iv now (a\<lparr>name := Patch\<rparr>) =
     (if cam a = Some 6 \<and> \<not> doorLeftClosed s
      then (a\<lparr>name := Patch, inOffice := True\<rparr>, [Patch]) else (a\<lparr>name := Patch\<rparr>, [])) \<and>
   3 \<in> set (allowed (animDefs Vale)) \<and>
   6 \<notin> set (allowed (animDefs Patch))"
  by (simp add: entryRules_Vale entryRules_Patch)

subsection \<open>Breach lifecycle\<close>

text \<open>
  C6. While an anim is in the office, a call of \<open>updateAI\<close> leaves its \<open>cam\<close>, \<open>lastMove\<close>,
  \<open>lastSeen\<close> and \<open>inOffice\<close> as they are, logs no entry of it and schedules no callback for
  it. The call at \<open>now\<close> that raises the breach logs exactly one entry of the anim and
  schedules exactly one callback, due at \<open>now + 2200\<close>; a further call, at any instant, adds
  neither. The callback, run at instant \<open>t\<close>, sets \<open>inOffice\<close> to false and \<open>lastMove\<close> to
  \<open>t\<close> and changes nothing else of the anim.
\<close>

theorem C6_breach_lifecycle:
  fixes s k rnd now rnd2 now2 t
  defines "s' \<equiv> updateAI rnd now s"
  defines "s'' \<equiv> updateAI rnd2 now2 s'"
  assumes "wellNamed s"
  shows "(inOffice (anims s k) \<longrightarrow>
            cam (anims s' k) = cam (anims s k) \<and> lastMove (anims s' k) = lastMove (anims s k) \<and>
            lastSeen (anims s' k) = lastSeen (anims s k) \<and> inOffice (anims s' k) \<and>
            filter (\<lambda>e. e = k) (entries s') = filter (\<lambda>e. e = k) (entries s) \<and>
            filter (\<lambda>tm. fst tm = k) (timers s') = filter (\<lambda>tm. fst tm = k) (timers s)) \<and>
         (\<not> inOffice (anims s k) \<and> inOffice (anims s' k) \<longrightarrow>
            filter (\<lambda>e. e = k) (entries s') = filter (\<lambda>e. e = k) (entries s) @ [k] \<and>
            filter (\<lambda>tm. fst tm = k) (timers s') =
              filter (\<lambda>tm. fst tm = k) (timers s) @ [(k, now + 2200)] \<and>
            inOffice (anims s'' k) \<and> lastMove (anims s'' k) = lastMove (anims s' k) \<and>
            filter (\<lambda>e. e = k) (entries s'') = filter (\<lambda>e. e = k) (entries s') \<and>
            filter (\<lambda>tm. fst tm = k) (timers s'') = filter (\<lambda>tm. fst tm = k) (timers s')) \<and>
         \<not> inOffice (anims (timerFire t k s) k) \<and> lastMove (anims (timerFire t k s) k) = t \<and>
         cam (anims (timerFire t k s) k) = cam (anims s k) \<and>
         lastSeen (anims (timerFire t k s) k) = lastSeen (anims s k) \<and>
         entries (timerFire t k s) = entries s"
proof -
  have w': "wellNamed s'" using assms(3) by (simp add: s'_def wellNamed_updateAI)
  have one: "inOffice (anims s k) \<longrightarrow>
            cam (anims s' k) = cam (anims s k) \<and> lastMove (anims s' k) = lastMove (anims s k) \<and>
            lastSeen (anims s' k) = lastSeen (anims s k) \<and> inOffice (anims s' k) \<and>
            filter (\<lambda>e. e = k) (entries s') = filter (\<lambda>e. e = k) (entries s) \<and>
            filter (\<lambda>tm. fst tm = k) (timers s') = filter (\<lambda>tm. fst tm = k) (timers s)"
    unfolding s'_def using breached_frame [OF assms(3)] by blast
  have two: "\<not> inOffice (anims s k) \<and> inOffice (anims s' k) \<longrightarrow>
            filter (\<lambda>e. e = k) (entries s') = filter (\<lambda>e. e = k) (entries s) @ [k] \<and>
            filter (\<lambda>tm. fst tm = k) (timers s') =
              filter (\<lambda>tm. fst tm = k) (timers s) @ [(k, now + 2200)]"
    unfolding s'_def using breach_raised [OF assms(3)] by blast
  have again: "inOffice (anims s' k) \<longrightarrow>
            inOffice (anims s'' k) \<and> lastMove (anims s'' k) = lastMove (anims s' k) \<and>
            filter (\<lambda>e. e = k) (entries s'') = filter (\<lambda>e. e = k) (entries s') \<and>
            filter (\<lambda>tm. fst tm = k) (timers s'') = filter (\<lambda>tm. fst tm = k) (timers s')"
    unfolding s''_def using breached_frame [OF w'] by blast
  have fire: "\<not> inOffice (anims (timerFire t k s) k) \<and> lastMove (anims (timerFire t k s) k) = t \<and>
         cam (anims (timerFire t k s) k) = cam (anims s k) \<and>
         lastSeen (anims (timerFire t k s) k) = lastSeen (anims s k) \<and>
         entries (timerFire t k s) = entries s"
    by (simp add: timerFire_def)
  from one two again fire show ?thesis by blast
qed

theorem C6_breach_lifecycle_witness:
  "wellNamed (beginGamePlay (startNewGame (initGame 0))) \<and>
   \<not> inOffice (anims (beginGamePlay (startNewGame (initGame 0))) Lulla) \<and>
   inOffice (anims (updateAI (\<lambda>k. 3/10) 60000 (beginGamePlay (startNewGame (initGame 0)))) Lulla) \<and>
   filter (\<lambda>tm. fst tm = Lulla) (timers (updateAI (\<lambda>k. 3/10) 60000 (beginGamePlay (startNewGame (initGame 0))))) =
     filter (\<lambda>tm. fst tm = Lulla) (timers (beginGamePlay (startNewGame (initGame 0)))) @ [(Lulla, 60000 + 2200)] \<and>
   filter (\<lambda>e. e = Lulla)
       (entries (updateAI (\<lambda>k. 0) 60016 (updateAI (\<lambda>k. 3/10) 60000 (beginGamePlay (startNewGame (initGame 0)))))) =
     filter (\<lambda>e. e = Lulla) (entries (updateAI (\<lambda>k. 3/10) 60000 (beginGamePlay (startNewGame (initGame 0))))) \<and>
   wellNamed (updateAI (\<lambda>k. 3/10) 60000 (beginGamePlay (startNewGame (initGame 0)))) \<and>
   lastMove (anims (updateAI (\<lambda>k. 0) 60016 (updateAI (\<lambda>k. 3/10) 60000 (beginGamePlay (startNewGame (initGame 0))))) Lulla) =
     lastMove (anims (updateAI (\<lambda>k. 3/10) 60000 (beginGamePlay (startNewGame (initGame 0)))) Lulla)"
proof -
  have w: "wellNamed (beginGamePlay (startNewGame (initGame 0)))"
    by (rule reachable_wellNamed) (rule reachable_play)
  have w': "wellNamed (updateAI (\<lambda>k. 3/10) 60000 (beginGamePlay (startNewGame (initGame 0))))"
    using w by (rule wellNamed_updateAI)
  have h: "\<not> inOffice (anims (beginGamePlay (startNewGame (initGame 0))) Lulla)" by code_simp
  have h': "inOffice (anims (updateAI (\<lambda>k. 3/10) 60000 (beginGamePlay (startNewGame (initGame 0)))) Lulla)"
    by code_simp
  from C6_breach_lifecycle [OF w, where k = Lulla and now = 60000 and rnd = "\<lambda>k. 3/10"
      and ?now2.0 = 60016 and ?rnd2.0 = "\<lambda>k. 0"] h h'
  have a: "filter (\<lambda>tm. fst tm = Lulla) (timers (updateAI (\<lambda>k. 3/10) 60000 (beginGamePlay (startNewGame (initGame 0))))) =
     filter (\<lambda>tm. fst tm = Lulla) (timers (beginGamePlay (startNewGame (initGame 0)))) @ [(Lulla, 60000 + 2200)] \<and>
   filter (\<lambda>e. e = Lulla)
       (entries (updateAI (\<lambda>k. 0) 60016 (updateAI (\<lambda>k. 3/10) 60000 (beginGamePlay (startNewGame (initGame 0)))))) =
     filter (\<lambda>e. e = Lulla) (entries (updateAI (\<lambda>k. 3/10) 60000 (beginGamePlay (startNewGame (initGame 0)))))"
    by blast
  from C6_breach_lifecycle [OF w', where k = Lulla and now = 60016 and rnd = "\<lambda>k. 0"] h'
  have b: "lastMove (anims (updateAI (\<lambda>k. 0) 60016 (updateAI (\<lambda>k. 3/10) 60000 (beginGamePlay (startNewGame (initGame 0))))) Lulla) =
     lastMove (anims (updateAI (\<lambda>k. 3/10) 60000 (beginGamePlay (startNewGame (initGame 0)))) Lulla)"
    by blast
  from w w' h h' a b show ?thesis by blast
qed

subsection \<open>New game\<close>



end
